theory Spec2Isabelle
  imports Main "HOL-Library.AList" "HOL-Library.Stream"
begin

section \<open>Time and the clock\<close>

text \<open>
  A \<^verbatim>\<open>time.Time\<close> is an instant on one time line; it is modelled by the integer
  number of clock ticks since a fixed origin. \<^verbatim>\<open>t.Before(u)\<close> reports whether
  \<open>t\<close> is strictly earlier than \<open>u\<close>.
\<close>

type_synonym time = int

definition Before :: "time \<Rightarrow> time \<Rightarrow> bool" where
  "Before t u = (t < u)"

text \<open>
  \<^verbatim>\<open>time.Now()\<close> is an effect. The clock is the stream of the values that the
  successive calls of \<^verbatim>\<open>time.Now()\<close> return: a call takes the head and leaves the
  tail. How many readings an operation consumes is how often it reads the clock.
\<close>

type_synonym clock = "time stream"

definition time_Now :: "clock \<Rightarrow> time \<times> clock" where
  "time_Now c = (shd c, stl c)"

section \<open>The backing store\<close>

text \<open>
  The package \<^verbatim>\<open>github.com/aicacia/go-cmap\<close> is imported by
  \<^verbatim>\<open>expiringmap.go\<close> and is not part of the sources. Its container is modelled
  as an association list with one pair per key; the order of the list is the order in
  which \<^verbatim>\<open>Range\<close> happens to traverse the entries, so a statement about every list
  is a statement about every traversal order.
\<close>

type_synonym ('k, 'v) CMap = "('k \<times> 'v) list"

definition wf_CMap :: "('k, 'v) CMap \<Rightarrow> bool" where
  \<comment> \<open>Modelled from the spec: the store holds one entry per key.\<close>
  "wf_CMap al = distinct (map fst al)"

definition cmap_New :: "('k, 'v) CMap" where
  \<comment> \<open>Modelled from the spec: \<^verbatim>\<open>cmap.New\<close>, construction of an empty store.\<close>
  "cmap_New = []"

definition cmap_Get :: "'k \<Rightarrow> ('k, 'v) CMap \<Rightarrow> 'v option" where
  \<comment> \<open>Modelled from the spec: \<^verbatim>\<open>cmap.Get(key) -> (V, bool)\<close>; \<open>None\<close> is
      the result whose flag is false.\<close>
  "cmap_Get key al = map_of al key"

definition cmap_Set :: "'k \<Rightarrow> 'v \<Rightarrow> ('k, 'v) CMap \<Rightarrow> bool \<times> ('k, 'v) CMap" where
  \<comment> \<open>Modelled from the spec: \<^verbatim>\<open>cmap.Set(key, value) -> bool\<close>, an upsert that
      returns whether the key pre-existed.\<close>
  "cmap_Set key v al = (map_of al key \<noteq> None, AList.update key v al)"

definition cmap_SetIfAbsent :: "'k \<Rightarrow> 'v \<Rightarrow> ('k, 'v) CMap \<Rightarrow> bool \<times> ('k, 'v) CMap" where
  \<comment> \<open>Modelled from the spec: \<^verbatim>\<open>cmap.SetIfAbsent(key, value) -> bool\<close>, which
      inserts only when the key has no entry and returns whether it inserted.\<close>
  "cmap_SetIfAbsent key v al =
     (if map_of al key = None then (True, AList.update key v al) else (False, al))"

definition cmap_LoadOrStore ::
  "'k \<Rightarrow> 'v \<Rightarrow> ('k, 'v) CMap \<Rightarrow> ('v \<times> bool) \<times> ('k, 'v) CMap" where
  \<comment> \<open>Modelled from the spec: \<^verbatim>\<open>cmap.LoadOrStore(key, value) -> (V, bool)\<close>, the
      atomic get-or-insert: the stored value and true when the key has an entry, otherwise
      the given value, now stored, and false.\<close>
  "cmap_LoadOrStore key v al =
     (case map_of al key of
        Some x \<Rightarrow> ((x, True), al)
      | None \<Rightarrow> ((v, False), AList.update key v al))"

definition cmap_Delete :: "'k \<Rightarrow> ('k, 'v) CMap \<Rightarrow> bool \<times> ('k, 'v) CMap" where
  \<comment> \<open>Modelled from the spec: \<^verbatim>\<open>cmap.Delete(key) -> bool\<close>, the removal primitive;
      it returns whether an entry was present.\<close>
  "cmap_Delete key al = (map_of al key \<noteq> None, AList.delete key al)"

definition cmap_Remove :: "'k \<Rightarrow> ('k, 'v) CMap \<Rightarrow> bool \<times> ('k, 'v) CMap" where
  \<comment> \<open>Modelled from the spec: \<^verbatim>\<open>cmap.Remove(key) -> bool\<close>, the removal primitive
      under its second name; it returns whether an entry was present.\<close>
  "cmap_Remove key al = (map_of al key \<noteq> None, AList.delete key al)"

definition cmap_Clear :: "('k, 'v) CMap \<Rightarrow> ('k, 'v) CMap" where
  \<comment> \<open>Modelled from the spec: \<^verbatim>\<open>cmap.Clear()\<close> removes all entries.\<close>
  "cmap_Clear al = []"

text \<open>
  Modelled from the spec: \<^verbatim>\<open>cmap.Range(visit)\<close>, the traversal primitive that is
  safe under mutation by the callback. The callback is a closure: \<open>'s\<close> is everything
  it can read and write, which for the closure built in \<^verbatim>\<open>ExpiringMap.Range\<close>
  includes the store being traversed. The traversal walks the entries present when it
  starts, hands each to the callback, and stops as soon as the callback returns false.
\<close>

fun cmap_Range_loop :: "('k \<Rightarrow> 'v \<Rightarrow> 's \<Rightarrow> bool \<times> 's) \<Rightarrow> ('k \<times> 'v) list \<Rightarrow> 's \<Rightarrow> 's" where
  \<comment> \<open>Modelled from the spec: the loop of \<^verbatim>\<open>cmap.Range\<close> over the entries.\<close>
  "cmap_Range_loop f [] s = s"
| "cmap_Range_loop f ((key, v) # rest) s =
     (case f key v s of (cont, s') \<Rightarrow> if cont then cmap_Range_loop f rest s' else s')"

definition cmap_Range :: "('k \<Rightarrow> 'v \<Rightarrow> 's \<Rightarrow> bool \<times> 's) \<Rightarrow> ('k, 'v) CMap \<Rightarrow> 's \<Rightarrow> 's" where
  \<comment> \<open>Modelled from the spec: \<^verbatim>\<open>cmap.Range(visit)\<close>, started on the entries
      present at the call.\<close>
  "cmap_Range f al s = cmap_Range_loop f al s"

text \<open>
  How far a traversal gets: \<open>cmap_Range_calls\<close> is the number of entries that the loop
  hands to the callback. It follows \<open>cmap_Range_loop\<close> equation by equation and counts
  one for each call of \<open>f\<close>, so the last entry counted is the one on which the callback
  returned false, if it ever did. It measures the model and is no function of the library.
\<close>

fun cmap_Range_calls :: "('k \<Rightarrow> 'v \<Rightarrow> 's \<Rightarrow> bool \<times> 's) \<Rightarrow> ('k \<times> 'v) list \<Rightarrow> 's \<Rightarrow> nat" where
  "cmap_Range_calls f [] s = 0"
| "cmap_Range_calls f ((key, v) # rest) s =
     (case f key v s of (cont, s') \<Rightarrow> if cont then Suc (cmap_Range_calls f rest s') else 1)"

section \<open>The expiring map\<close>

record 'v expiringMapVal =
  val :: 'v
  ttl :: time

record ('k, 'v) ExpiringMap =
  items :: "('k, 'v expiringMapVal) CMap"

definition New :: "('k, 'v) ExpiringMap" where
  "New = \<lparr>items = cmap_New\<rparr>"

subsection \<open>Operations that do not read the clock\<close>

definition SetIfAbsent ::
  "'k \<Rightarrow> 'v \<Rightarrow> time \<Rightarrow> ('k, 'v) ExpiringMap \<Rightarrow> bool \<times> ('k, 'v) ExpiringMap" where
  "SetIfAbsent key value deadline m =
     (case cmap_SetIfAbsent key \<lparr>val = value, ttl = deadline\<rparr> (items m) of
        (ok, al) \<Rightarrow> (ok, m\<lparr>items := al\<rparr>))"

definition Set ::
  "'k \<Rightarrow> 'v \<Rightarrow> time \<Rightarrow> ('k, 'v) ExpiringMap \<Rightarrow> bool \<times> ('k, 'v) ExpiringMap" where
  "Set key value deadline m =
     (case cmap_Set key \<lparr>val = value, ttl = deadline\<rparr> (items m) of
        (ok, al) \<Rightarrow> (ok, m\<lparr>items := al\<rparr>))"

definition Delete :: "'k \<Rightarrow> ('k, 'v) ExpiringMap \<Rightarrow> bool \<times> ('k, 'v) ExpiringMap" where
  "Delete key m = (case cmap_Delete key (items m) of (ok, al) \<Rightarrow> (ok, m\<lparr>items := al\<rparr>))"

definition Remove :: "'k \<Rightarrow> ('k, 'v) ExpiringMap \<Rightarrow> bool \<times> ('k, 'v) ExpiringMap" where
  "Remove key m = (case cmap_Remove key (items m) of (ok, al) \<Rightarrow> (ok, m\<lparr>items := al\<rparr>))"

definition Clear :: "('k, 'v) ExpiringMap \<Rightarrow> ('k, 'v) ExpiringMap" where
  "Clear m = m\<lparr>items := cmap_Clear (items m)\<rparr>"

subsection \<open>Operations that read the clock\<close>

text \<open>
  These take the map together with the clock and return both. In \<^verbatim>\<open>GetOrSet\<close>
  the clock is read after \<^verbatim>\<open>LoadOrStore\<close> has run; in \<^verbatim>\<open>Has\<close> and
  \<^verbatim>\<open>Get\<close> it is read only on the branch where the key has an entry.
\<close>

definition GetOrSet ::
  "'k \<Rightarrow> 'v \<Rightarrow> time \<Rightarrow> ('k, 'v) ExpiringMap \<times> clock \<Rightarrow> 'v \<times> ('k, 'v) ExpiringMap \<times> clock" where
  "GetOrSet key value deadline = (\<lambda>(m, c).
     let newItem = \<lparr>val = value, ttl = deadline\<rparr> in
     case cmap_LoadOrStore key newItem (items m) of
       ((item, _), al) \<Rightarrow>
         (case time_Now c of
            (now, c') \<Rightarrow>
              if Before (ttl item) now
              then (value, m\<lparr>items := snd (cmap_Set key newItem al)\<rparr>, c')
              else (val item, m\<lparr>items := al\<rparr>, c')))"

definition Has :: "'k \<Rightarrow> ('k, 'v) ExpiringMap \<times> clock \<Rightarrow> bool \<times> ('k, 'v) ExpiringMap \<times> clock" where
  "Has key = (\<lambda>(m, c).
     case cmap_Get key (items m) of
       Some item \<Rightarrow>
         (case time_Now c of
            (now, c') \<Rightarrow>
              if Before (ttl item) now
              then (False, m\<lparr>items := snd (cmap_Delete key (items m))\<rparr>, c')
              else (True, m, c'))
     | None \<Rightarrow> (False, m, c))"

text \<open>
  \<^verbatim>\<open>*new(V)\<close>, the zero value of the value type, is the parameter \<open>zeroV\<close>.
\<close>

definition Get ::
  "'v \<Rightarrow> 'k \<Rightarrow> ('k, 'v) ExpiringMap \<times> clock \<Rightarrow> ('v \<times> bool) \<times> ('k, 'v) ExpiringMap \<times> clock" where
  "Get zeroV key = (\<lambda>(m, c).
     case cmap_Get key (items m) of
       Some item \<Rightarrow>
         (case time_Now c of
            (now, c') \<Rightarrow>
              if Before (ttl item) now
              then ((zeroV, False), m\<lparr>items := snd (cmap_Delete key (items m))\<rparr>, c')
              else ((val item, True), m, c'))
     | None \<Rightarrow> ((zeroV, False), m, c))"

text \<open>
  The callback \<open>f\<close> handed to \<^verbatim>\<open>Range\<close> is a closure too. It may read the clock
  and update the variables it captured (\<open>'a\<close>); callbacks that write to the map they
  are traversing are outside the model. \<open>Range_visit\<close> is the closure that
  \<^verbatim>\<open>Range\<close> hands to the backing store; it captures \<open>now\<close>, read once before the
  traversal starts. The method \<^verbatim>\<open>Range\<close> is \<open>Range_m\<close> here, since \<open>Range\<close> is
  the range of a relation in HOL. \<^verbatim>\<open>Len\<close> counts in a Go \<^verbatim>\<open>int\<close>; the count is at
  most the number of stored entries, far from where that type wraps, so it is an \<open>int\<close>.
\<close>

type_synonym ('k, 'v, 'a) visit = "'k \<Rightarrow> 'v \<Rightarrow> clock \<times> 'a \<Rightarrow> bool \<times> clock \<times> 'a"

definition Range_visit ::
  "('k, 'v, 'a) visit \<Rightarrow> time \<Rightarrow> 'k \<Rightarrow> 'v expiringMapVal \<Rightarrow>
   ('k, 'v) ExpiringMap \<times> clock \<times> 'a \<Rightarrow> bool \<times> ('k, 'v) ExpiringMap \<times> clock \<times> 'a" where
  "Range_visit f now key value = (\<lambda>(m, c, a).
     if Before (ttl value) now
     then (True, m\<lparr>items := snd (cmap_Delete key (items m))\<rparr>, c, a)
     else (case f key (val value) (c, a) of (cont, c', a') \<Rightarrow> (cont, m, c', a')))"

definition Range_m ::
  "('k, 'v, 'a) visit \<Rightarrow> ('k, 'v) ExpiringMap \<times> clock \<times> 'a \<Rightarrow> ('k, 'v) ExpiringMap \<times> clock \<times> 'a" where
  "Range_m f = (\<lambda>(m, c, a).
     case time_Now c of
       (now, c') \<Rightarrow> cmap_Range (Range_visit f now) (items m) (m, c', a))"

text \<open>
  The number of entries that \<^verbatim>\<open>Range\<close> reaches: those that its closure is called on,
  expired or live, up to and including the one where the callback \<open>f\<close> stops the
  traversal.
\<close>

definition Range_reached :: "('k, 'v, 'a) visit \<Rightarrow> ('k, 'v) ExpiringMap \<times> clock \<times> 'a \<Rightarrow> nat" where
  "Range_reached f = (\<lambda>(m, c, a).
     case time_Now c of
       (now, c') \<Rightarrow> cmap_Range_calls (Range_visit f now) (items m) (m, c', a))"

definition Len :: "('k, 'v) ExpiringMap \<times> clock \<Rightarrow> int \<times> ('k, 'v) ExpiringMap \<times> clock" where
  "Len = (\<lambda>(m, c).
     case Range_m (\<lambda>_ _ (c', count). (True, c', count + 1)) (m, c, 0) of
       (m', c', count) \<Rightarrow> (count, m', c'))"

definition IsEmpty :: "('k, 'v) ExpiringMap \<times> clock \<Rightarrow> bool \<times> ('k, 'v) ExpiringMap \<times> clock" where
  "IsEmpty = (\<lambda>(m, c). case Len (m, c) of (n, m', c') \<Rightarrow> (n = 0, m', c'))"

text \<open>
  \<^verbatim>\<open>Iter\<close>, \<^verbatim>\<open>Keys\<close> and \<^verbatim>\<open>Values\<close> run \<^verbatim>\<open>Range\<close> in a goroutine
  whose callback sends on a channel and returns true. Of the channel only the sequence
  of the values sent is kept, in the order of the sends.
\<close>

definition Iter ::
  "('k, 'v) ExpiringMap \<times> clock \<Rightarrow> ('k \<times> 'v) list \<times> ('k, 'v) ExpiringMap \<times> clock" where
  "Iter = (\<lambda>(m, c).
     case Range_m (\<lambda>key value (c', ch). (True, c', ch @ [(key, value)])) (m, c, []) of
       (m', c', ch) \<Rightarrow> (ch, m', c'))"

definition Keys :: "('k, 'v) ExpiringMap \<times> clock \<Rightarrow> 'k list \<times> ('k, 'v) ExpiringMap \<times> clock" where
  "Keys = (\<lambda>(m, c).
     case Range_m (\<lambda>key _ (c', ch). (True, c', ch @ [key])) (m, c, []) of
       (m', c', ch) \<Rightarrow> (ch, m', c'))"

definition Values :: "('k, 'v) ExpiringMap \<times> clock \<Rightarrow> 'v list \<times> ('k, 'v) ExpiringMap \<times> clock" where
  "Values = (\<lambda>(m, c).
     case Range_m (\<lambda>_ value (c', ch). (True, c', ch @ [value])) (m, c, []) of
       (m', c', ch) \<Rightarrow> (ch, m', c'))"

text \<open>
  The entries that the check \<^verbatim>\<open>value.ttl.Before(now)\<close> lets pass, in store order.
\<close>

definition live_items :: "time \<Rightarrow> ('k, 'v expiringMapVal) CMap \<Rightarrow> ('k, 'v expiringMapVal) CMap" where
  "live_items now al = filter (\<lambda>(key, item). \<not> Before (ttl item) now) al"

section \<open>Facts about the traversal\<close>

lemma live_items_simps [simp]:
  "live_items now [] = []"
  "live_items now ((key, item) # al) =
     (if Before (ttl item) now then live_items now al else (key, item) # live_items now al)"
  by (simp_all add: live_items_def)

lemma live_items_le: "live_items now al = filter (\<lambda>(key, item). now \<le> ttl item) al"
  by (simp add: live_items_def Before_def not_less)

lemma live_items_append: "live_items now (xs @ ys) = live_items now xs @ live_items now ys"
  by (simp add: live_items_def)

lemma delete_middle:
  assumes "distinct (map fst (pre @ (k, e) # rest))"
  shows "AList.delete k (pre @ (k, e) # rest) = pre @ rest"
proof -
  have "AList.delete k (pre @ (k, e) # rest) = AList.delete k pre @ AList.delete k rest"
    by (simp add: AList.delete_eq)
  moreover have "k \<notin> fst ` set pre" "k \<notin> fst ` set rest" using assms by auto
  ultimately show ?thesis by simp
qed

lemma Range_loop_presented:
  "snd (cmap_Range_loop (Range_visit f now) xs (m, c, a)) =
   cmap_Range_loop (\<lambda>key item. f key (val item)) (live_items now xs) (c, a)"
  by (induction xs arbitrary: m c a) (auto simp: Range_visit_def split: prod.splits)

lemma Range_loop_items_all:
  assumes "\<And>key v s. fst (f key v s)"
  shows "distinct (map fst (pre @ xs)) \<Longrightarrow> items m = pre @ xs \<Longrightarrow>
     fst (cmap_Range_loop (Range_visit f now) xs (m, c, a)) = m\<lparr>items := pre @ live_items now xs\<rparr>"
proof (induction xs arbitrary: pre m c a)
  case Nil
  then show ?case by simp
next
  case (Cons p xs)
  obtain k e where p: "p = (k, e)" by (cases p)
  show ?case
  proof (cases "Before (ttl e) now")
    case True
    have d: "AList.delete k (items m) = pre @ xs"
      using Cons.prems p delete_middle by metis
    have "distinct (map fst (pre @ xs))" using Cons.prems(1) by simp
    from Cons.IH[OF this, of "m\<lparr>items := pre @ xs\<rparr>"] True d
    show ?thesis by (simp add: p Range_visit_def cmap_Delete_def)
  next
    case False
    obtain c' a' where fr: "f k (val e) (c, a) = (True, c', a')"
      using assms[of k "val e" "(c, a)"] by (cases "f k (val e) (c, a)") auto
    have "distinct (map fst ((pre @ [p]) @ xs))" "items m = (pre @ [p]) @ xs"
      using Cons.prems by simp_all
    from Cons.IH[OF this] False fr
    show ?thesis by (simp add: p Range_visit_def)
  qed
qed

lemma calls_le: "cmap_Range_calls f xs s \<le> length xs"
  by (induction f xs s rule: cmap_Range_calls.induct) (auto split: prod.splits)

lemma calls_all:
  assumes "\<And>key v s. fst (f key v s)"
  shows "cmap_Range_calls f xs s = length xs"
proof (induction xs arbitrary: s)
  case Nil
  then show ?case by simp
next
  case (Cons p xs)
  obtain k v where p: "p = (k, v)" by (cases p)
  obtain s' where "f k v s = (True, s')"
    using assms[of k v s] by (cases "f k v s") auto
  then show ?case using Cons.IH[of s'] by (simp add: p)
qed

lemma calls_stop:
  "cmap_Range_calls f xs s < length xs \<Longrightarrow>
     0 < cmap_Range_calls f xs s \<and>
     \<not> fst (case xs ! (cmap_Range_calls f xs s - 1) of
               (key, v) \<Rightarrow> f key v (cmap_Range_loop f (take (cmap_Range_calls f xs s - 1) xs) s))"
proof (induction xs arbitrary: s)
  case Nil
  then show ?case by simp
next
  case (Cons p xs)
  obtain k v where p: "p = (k, v)" by (cases p)
  obtain cont s' where fr: "f k v s = (cont, s')" by (cases "f k v s")
  show ?case
  proof (cases cont)
    case False
    then show ?thesis using fr by (simp add: p)
  next
    case True
    then have n: "cmap_Range_calls f (p # xs) s = Suc (cmap_Range_calls f xs s')"
      using fr by (simp add: p)
    with Cons.prems have "cmap_Range_calls f xs s' < length xs" by simp
    from Cons.IH[OF this] have
      pos: "0 < cmap_Range_calls f xs s'" and
      st: "\<not> fst (case xs ! (cmap_Range_calls f xs s' - 1) of
               (key, v) \<Rightarrow> f key v (cmap_Range_loop f (take (cmap_Range_calls f xs s' - 1) xs) s'))"
      by blast+
    obtain j where j: "cmap_Range_calls f xs s' = Suc j" using pos by (cases "cmap_Range_calls f xs s'") auto
    show ?thesis using st True fr by (simp add: n j p)
  qed
qed

lemma calls_before:
  "i < cmap_Range_calls f xs s - 1 \<Longrightarrow>
     fst (case xs ! i of (key, v) \<Rightarrow> f key v (cmap_Range_loop f (take i xs) s))"
proof (induction xs arbitrary: s i)
  case Nil
  then show ?case by simp
next
  case (Cons p xs)
  obtain k v where p: "p = (k, v)" by (cases p)
  obtain cont s' where fr: "f k v s = (cont, s')" by (cases "f k v s")
  show ?case
  proof (cases cont)
    case False
    then show ?thesis using fr Cons.prems by (simp add: p)
  next
    case True
    then have n: "cmap_Range_calls f (p # xs) s = Suc (cmap_Range_calls f xs s')"
      using fr by (simp add: p)
    show ?thesis
    proof (cases i)
      case 0
      then show ?thesis using True fr by (simp add: p)
    next
      case (Suc j)
      with Cons.prems n have "j < cmap_Range_calls f xs s' - 1" by simp
      from Cons.IH[OF this] show ?thesis using True fr Suc by (simp add: p)
    qed
  qed
qed

lemma Range_loop_items_reached:
  "distinct (map fst (pre @ xs)) \<Longrightarrow> items m = pre @ xs \<Longrightarrow>
     fst (cmap_Range_loop (Range_visit f now) xs (m, c, a)) =
        m\<lparr>items := pre @ live_items now (take (cmap_Range_calls (Range_visit f now) xs (m, c, a)) xs)
                        @ drop (cmap_Range_calls (Range_visit f now) xs (m, c, a)) xs\<rparr>"
proof (induction xs arbitrary: pre m c a)
  case Nil
  then show ?case by simp
next
  case (Cons p xs)
  obtain k e where p: "p = (k, e)" by (cases p)
  show ?case
  proof (cases "Before (ttl e) now")
    case True
    have d: "AList.delete k (items m) = pre @ xs"
      using Cons.prems p delete_middle by metis
    have "distinct (map fst (pre @ xs))" using Cons.prems(1) by simp
    from Cons.IH[OF this, of "m\<lparr>items := pre @ xs\<rparr>" c a] True d
    show ?thesis by (simp add: p Range_visit_def cmap_Delete_def)
  next
    case False
    obtain cont c' a' where fr: "f k (val e) (c, a) = (cont, c', a')"
      by (cases "f k (val e) (c, a)") auto
    show ?thesis
    proof (cases cont)
      case True
      have "distinct (map fst ((pre @ [p]) @ xs))" "items m = (pre @ [p]) @ xs"
        using Cons.prems by simp_all
      from Cons.IH[OF this, of c' a'] True False fr
      show ?thesis by (simp add: p Range_visit_def)
    next
      case False
      then show ?thesis
        using \<open>\<not> Before (ttl e) now\<close> fr Cons.prems(2) by (simp add: p Range_visit_def)
    qed
  qed
qed

lemma Range_m_presented:
  "snd (Range_m f (m, c, a)) =
   cmap_Range_loop (\<lambda>key item. f key (val item)) (live_items (shd c) (items m)) (stl c, a)"
  by (simp add: Range_m_def time_Now_def cmap_Range_def Range_loop_presented)

lemma Range_m_items_all:
  assumes "\<And>key v s. fst (f key v s)" and "wf_CMap (items m)"
  shows "fst (Range_m f (m, c, a)) = m\<lparr>items := live_items (shd c) (items m)\<rparr>"
  using Range_loop_items_all[of f "[]" "items m" m "shd c" "stl c" a] assms
  by (simp add: Range_m_def time_Now_def cmap_Range_def wf_CMap_def)

lemma Range_m_items_reached:
  assumes "wf_CMap (items m)"
  shows "fst (Range_m f (m, c, a)) =
        m\<lparr>items := live_items (shd c) (take (Range_reached f (m, c, a)) (items m))
                       @ drop (Range_reached f (m, c, a)) (items m)\<rparr>"
  using Range_loop_items_reached[of "[]" "items m" m f "shd c" "stl c" a] assms
  by (simp add: Range_m_def Range_reached_def time_Now_def cmap_Range_def wf_CMap_def)

lemma Range_reached_le: "Range_reached f (m, c, a) \<le> length (items m)"
  by (simp add: Range_reached_def time_Now_def calls_le)

lemma Range_visit_all:
  assumes "\<And>key v s. fst (f key v s)"
  shows "fst (Range_visit f now key item s)"
  using assms[of key "val item" "snd s"]
  by (cases s) (auto simp: Range_visit_def split: prod.splits)

lemma Range_reached_all:
  assumes "\<And>key v s. fst (f key v s)"
  shows "Range_reached f (m, c, a) = length (items m)"
proof -
  have "\<And>key item s. fst (Range_visit f (shd c) key item s)"
    by (rule Range_visit_all) (rule assms)
  from calls_all[of "Range_visit f (shd c)", OF this] show ?thesis
    by (simp add: Range_reached_def time_Now_def)
qed

lemma Range_visit_stop:
  "\<not> fst (Range_visit f now key item (m, c, a)) \<Longrightarrow>
     \<not> Before (ttl item) now \<and> \<not> fst (f key (val item) (c, a))"
  by (auto simp: Range_visit_def split: if_splits prod.splits)

lemma Range_reached_stop:
  assumes "Range_reached f (m, c, a) < length (items m)"
  shows "0 < Range_reached f (m, c, a) \<and>
     (case items m ! (Range_reached f (m, c, a) - 1) of
        (key, item) \<Rightarrow>
          shd c \<le> ttl item \<and>
          \<not> fst (f key (val item)
                 (snd (cmap_Range_loop (Range_visit f (shd c))
                         (take (Range_reached f (m, c, a) - 1) (items m)) (m, stl c, a)))))"
proof -
  let ?n = "cmap_Range_calls (Range_visit f (shd c)) (items m) (m, stl c, a)"
  have n: "Range_reached f (m, c, a) = ?n" by (simp add: Range_reached_def time_Now_def)
  from assms n have "?n < length (items m)" by simp
  from calls_stop[OF this] have pos: "0 < ?n" and
    st: "\<not> fst (case items m ! (?n - 1) of
               (key, v) \<Rightarrow> Range_visit f (shd c) key v
                   (cmap_Range_loop (Range_visit f (shd c)) (take (?n - 1) (items m)) (m, stl c, a)))"
    by blast+
  obtain k e where ke: "items m ! (?n - 1) = (k, e)" by (cases "items m ! (?n - 1)")
  obtain m' c' a' where s: "cmap_Range_loop (Range_visit f (shd c)) (take (?n - 1) (items m)) (m, stl c, a) = (m', c', a')"
    by (cases "cmap_Range_loop (Range_visit f (shd c)) (take (?n - 1) (items m)) (m, stl c, a)")
  from st ke s have "\<not> fst (Range_visit f (shd c) k e (m', c', a'))" by simp
  from Range_visit_stop[OF this] have "shd c \<le> ttl e" "\<not> fst (f k (val e) (c', a'))"
    by (simp_all add: Before_def)
  then show ?thesis using pos ke s by (simp add: n)
qed

lemma Range_reached_before:
  assumes "i < Range_reached f (m, c, a) - 1"
  shows "fst (case items m ! i of
                (key, item) \<Rightarrow>
                  Range_visit f (shd c) key item
                    (cmap_Range_loop (Range_visit f (shd c)) (take i (items m)) (m, stl c, a)))"
  using calls_before[of i "Range_visit f (shd c)" "items m" "(m, stl c, a)"] assms
  by (simp add: Range_reached_def time_Now_def)

lemma count_loop:
  "cmap_Range_loop (\<lambda>key item (c', count). (True, c', count + 1)) xs (c, n) =
   (c, n + int (length xs))"
  by (induction xs arbitrary: n) auto

lemma Len_unfold:
  "Len (m, c) =
     (snd (snd (Range_m (\<lambda>_ _ (c', count). (True, c', count + 1)) (m, c, 0::int))),
      fst (Range_m (\<lambda>_ _ (c', count). (True, c', count + 1)) (m, c, 0::int)),
      fst (snd (Range_m (\<lambda>_ _ (c', count). (True, c', count + 1)) (m, c, 0::int))))"
  by (simp add: Len_def split: prod.splits)

lemma Len_count: "fst (Len (m, c)) = int (length (live_items (shd c) (items m)))"
  by (simp add: Len_unfold Range_m_presented count_loop)

lemma Len_clock: "snd (snd (Len (m, c))) = stl c"
  by (simp add: Len_unfold Range_m_presented count_loop)

lemma Len_items:
  assumes "wf_CMap (items m)"
  shows "fst (snd (Len (m, c))) = m\<lparr>items := live_items (shd c) (items m)\<rparr>"
proof -
  have "fst (Range_m (\<lambda>_ _ (c', count). (True, c', count + 1)) (m, c, 0::int)) =
        m\<lparr>items := live_items (shd c) (items m)\<rparr>"
    by (rule Range_m_items_all) (auto simp: assms)
  then show ?thesis by (simp add: Len_unfold)
qed

lemma live_items_later:
  "now1 \<le> now2 \<Longrightarrow> live_items now2 (live_items now1 al) = live_items now2 al"
  by (induction al) (auto simp: Before_def)

lemma length_live_items_mono:
  "now1 \<le> now2 \<Longrightarrow> length (live_items now2 al) \<le> length (live_items now1 al)"
  by (induction al) (auto simp: Before_def)

lemma set_live_items_mono:
  "now1 \<le> now2 \<Longrightarrow> set (live_items now2 al) \<subseteq> set (live_items now1 al)"
  by (auto simp: live_items_def Before_def)

section \<open>Facts about the operations\<close>

lemma Has_eq:
  "Has key (m, c) =
     (case map_of (items m) key of
        None \<Rightarrow> (False, m, c)
      | Some item \<Rightarrow>
          if ttl item < shd c then (False, m\<lparr>items := AList.delete key (items m)\<rparr>, stl c)
          else (True, m, stl c))"
  by (simp add: Has_def cmap_Get_def cmap_Delete_def time_Now_def Before_def split: option.splits)

lemma Get_eq:
  "Get zeroV key (m, c) =
     (case map_of (items m) key of
        None \<Rightarrow> ((zeroV, False), m, c)
      | Some item \<Rightarrow>
          if ttl item < shd c
          then ((zeroV, False), m\<lparr>items := AList.delete key (items m)\<rparr>, stl c)
          else ((val item, True), m, stl c))"
  by (simp add: Get_def cmap_Get_def cmap_Delete_def time_Now_def Before_def split: option.splits)

lemma GetOrSet_eq:
  "GetOrSet key v d (m, c) =
     (case map_of (items m) key of
        None \<Rightarrow> (v, m\<lparr>items := AList.update key \<lparr>val = v, ttl = d\<rparr> (items m)\<rparr>, stl c)
      | Some item \<Rightarrow>
          if ttl item < shd c
          then (v, m\<lparr>items := AList.update key \<lparr>val = v, ttl = d\<rparr> (items m)\<rparr>, stl c)
          else (val item, m, stl c))"
  by (simp add: GetOrSet_def cmap_LoadOrStore_def cmap_Set_def time_Now_def Before_def Let_def
           split: option.splits)

lemma SetIfAbsent_eq:
  "SetIfAbsent key v d m =
     (if map_of (items m) key = None
      then (True, m\<lparr>items := AList.update key \<lparr>val = v, ttl = d\<rparr> (items m)\<rparr>)
      else (False, m))"
  by (simp add: SetIfAbsent_def cmap_SetIfAbsent_def)

lemma Set_eq:
  "Set key v d m =
     (map_of (items m) key \<noteq> None, m\<lparr>items := AList.update key \<lparr>val = v, ttl = d\<rparr> (items m)\<rparr>)"
  by (simp add: Set_def cmap_Set_def)

lemma Delete_eq:
  "Delete key m = (map_of (items m) key \<noteq> None, m\<lparr>items := AList.delete key (items m)\<rparr>)"
  by (simp add: Delete_def cmap_Delete_def)

lemma Remove_eq:
  "Remove key m = (map_of (items m) key \<noteq> None, m\<lparr>items := AList.delete key (items m)\<rparr>)"
  by (simp add: Remove_def cmap_Remove_def)

lemma append_loop:
  "cmap_Range_loop (\<lambda>key item (c', ch). (True, c', ch @ [g key item])) xs (c, acc) =
   (c, acc @ map (\<lambda>(key, item). g key item) xs)"
  by (induction xs arbitrary: acc) auto

lemma Keys_eq_aux:
  "snd (Range_m (\<lambda>key _ (c', ch). (True, c', ch @ [key])) (m, c, [])) =
   (stl c, map fst (live_items (shd c) (items m)))"
  using append_loop[of "\<lambda>key item. key" "live_items (shd c) (items m)" "stl c" "[]"]
  by (simp add: Range_m_presented case_prod_unfold)

lemma Keys_unfold:
  "Keys (m, c) =
     (snd (snd (Range_m (\<lambda>key _ (c', ch). (True, c', ch @ [key])) (m, c, []))),
      fst (Range_m (\<lambda>key _ (c', ch). (True, c', ch @ [key])) (m, c, [])),
      fst (snd (Range_m (\<lambda>key _ (c', ch). (True, c', ch @ [key])) (m, c, []))))"
  by (simp add: Keys_def split: prod.splits)

lemma Keys_list: "fst (Keys (m, c)) = map fst (live_items (shd c) (items m))"
  by (simp add: Keys_unfold Keys_eq_aux)

lemma Keys_clock: "snd (snd (Keys (m, c))) = stl c"
  by (simp add: Keys_unfold Keys_eq_aux)

lemma Values_unfold:
  "Values (m, c) =
     (snd (snd (Range_m (\<lambda>_ value (c', ch). (True, c', ch @ [value])) (m, c, []))),
      fst (Range_m (\<lambda>_ value (c', ch). (True, c', ch @ [value])) (m, c, [])),
      fst (snd (Range_m (\<lambda>_ value (c', ch). (True, c', ch @ [value])) (m, c, []))))"
  by (simp add: Values_def split: prod.splits)

lemma Values_eq_aux:
  "snd (Range_m (\<lambda>_ value (c', ch). (True, c', ch @ [value])) (m, c, [])) =
   (stl c, map (\<lambda>(key, item). val item) (live_items (shd c) (items m)))"
  using append_loop[of "\<lambda>key item. val item" "live_items (shd c) (items m)" "stl c" "[]"]
  by (simp add: Range_m_presented case_prod_unfold)

lemma Values_list:
  "fst (Values (m, c)) = map (\<lambda>(key, item). val item) (live_items (shd c) (items m))"
  by (simp add: Values_unfold Values_eq_aux)

lemma Values_clock: "snd (snd (Values (m, c))) = stl c"
  by (simp add: Values_unfold Values_eq_aux)

lemma Iter_unfold:
  "Iter (m, c) =
     (snd (snd (Range_m (\<lambda>key value (c', ch). (True, c', ch @ [(key, value)])) (m, c, []))),
      fst (Range_m (\<lambda>key value (c', ch). (True, c', ch @ [(key, value)])) (m, c, [])),
      fst (snd (Range_m (\<lambda>key value (c', ch). (True, c', ch @ [(key, value)])) (m, c, []))))"
  by (simp add: Iter_def split: prod.splits)

lemma Iter_eq_aux:
  "snd (Range_m (\<lambda>key value (c', ch). (True, c', ch @ [(key, value)])) (m, c, [])) =
   (stl c, map (\<lambda>(key, item). (key, val item)) (live_items (shd c) (items m)))"
  using append_loop[of "\<lambda>key item. (key, val item)" "live_items (shd c) (items m)" "stl c" "[]"]
  by (simp add: Range_m_presented case_prod_unfold)

lemma Iter_list:
  "fst (Iter (m, c)) = map (\<lambda>(key, item). (key, val item)) (live_items (shd c) (items m))"
  by (simp add: Iter_unfold Iter_eq_aux)

lemma Iter_clock: "snd (snd (Iter (m, c))) = stl c"
  by (simp add: Iter_unfold Iter_eq_aux)

lemma IsEmpty_unfold:
  "IsEmpty (m, c) = (fst (Len (m, c)) = 0, fst (snd (Len (m, c))), snd (snd (Len (m, c))))"
  by (simp add: IsEmpty_def split: prod.splits)

subsection \<open>One entry per key\<close>

text \<open>
  Every operation keeps the store at one entry per key, so the stores a program can
  reach from \<^verbatim>\<open>New\<close> all satisfy \<open>wf_CMap\<close>.
\<close>

lemma wf_live_items: "wf_CMap al \<Longrightarrow> wf_CMap (live_items now al)"
  by (simp add: wf_CMap_def live_items_def distinct_map_filter)

lemma wf_New: "wf_CMap (items New)"
  by (simp add: New_def cmap_New_def wf_CMap_def)

lemma wf_writes:
  assumes "wf_CMap (items m)"
  shows "wf_CMap (items (snd (SetIfAbsent key v d m)))"
    and "wf_CMap (items (snd (Set key v d m)))"
    and "wf_CMap (items (snd (Delete key m)))"
    and "wf_CMap (items (snd (Remove key m)))"
    and "wf_CMap (items (Clear m))"
    and "wf_CMap (items (fst (snd (GetOrSet key v d (m, c)))))"
  using assms
  by (auto simp: SetIfAbsent_eq Set_eq Delete_eq Remove_eq Clear_def cmap_Clear_def GetOrSet_eq
        wf_CMap_def AList.distinct_update AList.distinct_delete split: option.splits)

lemma wf_reads:
  assumes "wf_CMap (items m)"
  shows "wf_CMap (items (fst (snd (Has key (m, c)))))"
    and "wf_CMap (items (fst (snd (Get zeroV key (m, c)))))"
    and "wf_CMap (items (fst (snd (Len (m, c)))))"
  using assms wf_live_items[OF assms, of "shd c"]
  by (auto simp: Has_eq Get_eq Len_items wf_CMap_def AList.distinct_delete split: option.splits)

section \<open>The claims\<close>




text \<open>
  Claim C2. \<^verbatim>\<open>SetIfAbsent\<close> inserts and returns true exactly when the key has no
  entry in the backing store. It reads no clock and looks at no deadline: an entry that
  is present blocks the insertion and stays as it is, whatever its deadline. The second
  of two calls for the same key returns false and changes nothing.
\<close>

theorem C2_SetIfAbsent_no_staleness_check:
  "SetIfAbsent key v d m =
     (if map_of (items m) key = None
      then (True, m\<lparr>items := AList.update key \<lparr>val = v, ttl = d\<rparr> (items m)\<rparr>)
      else (False, m))
   \<and> map_of (items (snd (SetIfAbsent key v d m))) key =
     (case map_of (items m) key of None \<Rightarrow> Some \<lparr>val = v, ttl = d\<rparr> | Some item \<Rightarrow> Some item)
   \<and> SetIfAbsent key v2 d2 (snd (SetIfAbsent key v1 d1 m)) =
     (False, snd (SetIfAbsent key v1 d1 m))"
  by (simp add: SetIfAbsent_eq AList.update_conv' split: option.splits)

text \<open>
  Claim C3. \<^verbatim>\<open>GetOrSet\<close> stores the new entry and returns the new value when the
  key has no entry, and also when the entry it finds has a deadline before the time read
  in the call; otherwise it returns the value found and leaves the store as it is. When
  the key has no live entry at a first call, and the deadline given there has passed at
  a second call, the second call returns its own value and leaves its own entry stored.
\<close>

theorem C3_GetOrSet:
  "GetOrSet key v d (m, c) =
     (case map_of (items m) key of
        None \<Rightarrow> (v, m\<lparr>items := AList.update key \<lparr>val = v, ttl = d\<rparr> (items m)\<rparr>, stl c)
      | Some item \<Rightarrow>
          if ttl item < shd c
          then (v, m\<lparr>items := AList.update key \<lparr>val = v, ttl = d\<rparr> (items m)\<rparr>, stl c)
          else (val item, m, stl c))
   \<and> ((case map_of (items m) key of None \<Rightarrow> True | Some item \<Rightarrow> ttl item < shd c1) \<and> d1 < shd c2 \<longrightarrow>
        fst (GetOrSet key v2 d2 (fst (snd (GetOrSet key v1 d1 (m, c1))), c2)) = v2
      \<and> map_of (items (fst (snd (GetOrSet key v2 d2 (fst (snd (GetOrSet key v1 d1 (m, c1))), c2))))) key =
          Some \<lparr>val = v2, ttl = d2\<rparr>)"
  by (auto simp: GetOrSet_eq AList.update_conv' split: option.splits)

theorem C3_GetOrSet_witness:
  "(case map_of (items (New :: (nat, nat) ExpiringMap)) 1 of None \<Rightarrow> True | Some item \<Rightarrow> ttl item < shd (sconst 10))
   \<and> (5::int) < shd (sconst 11)
   \<and> fst (GetOrSet (1::nat) (8::nat) 20 (fst (snd (GetOrSet 1 7 5 (New, sconst 10))), sconst 11)) = 8
   \<and> map_of (items (fst (snd (GetOrSet (1::nat) (8::nat) 20
         (fst (snd (GetOrSet 1 7 5 (New, sconst 10))), sconst 11))))) 1 = Some \<lparr>val = 8, ttl = 20\<rparr>"
  using C3_GetOrSet [of "1::nat" "8::nat" 20 "New" "sconst 11" "sconst 10" 5 "sconst 11" 8 20 7]
  by (simp add: New_def cmap_New_def)

text \<open>
  Claim C4. After \<^verbatim>\<open>Set(key, value, deadline)\<close>, \<^verbatim>\<open>Get(key)\<close> returns the value
  and true as long as the deadline is not before the time read. Once the deadline is
  before the time read, it returns the zero value and false and removes the entry, and a
  following \<^verbatim>\<open>Len\<close> counts the live entries of the other keys only.
\<close>

theorem C4_Set_then_Get:
  "Get zeroV key (snd (Set key v d m), c) =
     (if d < shd c
      then ((zeroV, False), m\<lparr>items := AList.delete key (items m)\<rparr>, stl c)
      else ((v, True), snd (Set key v d m), stl c))
   \<and> (d < shd c \<longrightarrow>
        map_of (items (fst (snd (Get zeroV key (snd (Set key v d m), c))))) key = None
      \<and> fst (Len (fst (snd (Get zeroV key (snd (Set key v d m), c))), c')) =
          int (length (filter (\<lambda>(k, item). k \<noteq> key \<and> shd c' \<le> ttl item) (items m))))"
proof -
  have g: "Get zeroV key (snd (Set key v d m), c) =
     (if d < shd c
      then ((zeroV, False), m\<lparr>items := AList.delete key (items m)\<rparr>, stl c)
      else ((v, True), snd (Set key v d m), stl c))"
    by (simp add: Set_eq Get_eq AList.update_conv' AList.delete_update_same)
  have l: "fst (Len (m\<lparr>items := AList.delete key (items m)\<rparr>, c')) =
          int (length (filter (\<lambda>(k, item). k \<noteq> key \<and> shd c' \<le> ttl item) (items m)))"
  proof -
    have "filter (\<lambda>(k, item). shd c' \<le> ttl item) (AList.delete key (items m)) =
          filter (\<lambda>(k, item). k \<noteq> key \<and> shd c' \<le> ttl item) (items m)"
      by (auto simp: AList.delete_eq case_prod_unfold intro: filter_cong)
    then show ?thesis by (simp add: Len_count live_items_le)
  qed
  show ?thesis using g l by (simp add: AList.delete_conv')
qed

theorem C4_Set_then_Get_witness:
  "Get 0 (1::nat) (snd (Set 1 (7::nat) 5 \<lparr>items = [(2, \<lparr>val = 9, ttl = 100\<rparr>)]\<rparr>), sconst 5) =
     ((7, True), \<lparr>items = [(2, \<lparr>val = 9, ttl = 100\<rparr>), (1, \<lparr>val = 7, ttl = 5\<rparr>)]\<rparr>, sconst 5)
   \<and> (5::int) < shd (sconst 10)
   \<and> Get 0 (1::nat) (snd (Set 1 (7::nat) 5 \<lparr>items = [(2, \<lparr>val = 9, ttl = 100\<rparr>)]\<rparr>), sconst 10) =
     ((0, False), \<lparr>items = [(2, \<lparr>val = 9, ttl = 100\<rparr>)]\<rparr>, sconst 10)
   \<and> fst (Len (fst (snd (Get 0 (1::nat)
         (snd (Set 1 (7::nat) 5 \<lparr>items = [(2, \<lparr>val = 9, ttl = 100\<rparr>)]\<rparr>), sconst 10))), sconst 11)) = 1"
  using C4_Set_then_Get [of 0 "1::nat" "7::nat" 5 "\<lparr>items = [(2, \<lparr>val = 9, ttl = 100\<rparr>)]\<rparr>" "sconst 5" "sconst 11"]
        C4_Set_then_Get [of 0 "1::nat" "7::nat" 5 "\<lparr>items = [(2, \<lparr>val = 9, ttl = 100\<rparr>)]\<rparr>" "sconst 10" "sconst 11"]
  by (simp add: Set_eq Len_count Before_def)

text \<open>
  Claim C5, as amended. \<^verbatim>\<open>Range\<close> reads the clock once and hands to the callback
  exactly the entries whose deadline is not before that reading, in store order, until
  the callback returns false; \<^verbatim>\<open>Len\<close> counts exactly those entries. So no entry
  whose deadline is before the reading is presented or counted, while an entry whose
  deadline equals the reading is. Every expired entry that the traversal reaches is
  deleted from the store on the spot and the traversal goes on. With \<open>n\<close> the number
  of entries reached, the store afterwards is the old one with the expired entries among
  its first \<open>n\<close> removed and the rest untouched. Here \<open>n\<close> is fixed by the callback:
  on each of the first \<open>n - 1\<close> entries the closure returned true (the entry was
  expired and evicted, or the callback asked to go on); when \<open>n\<close> is less than the size
  of the store, entry \<open>n\<close> is live and is the one on which the callback returned false;
  and when the callback never returns false, as in \<^verbatim>\<open>Len\<close>, \<open>n\<close> is the size of the
  store and every expired entry is gone.
\<close>

theorem C5_traversal_skips_and_evicts_expired:
  assumes "wf_CMap (items m)"
  shows "snd (Range_m f (m, c, a)) =
           cmap_Range_loop (\<lambda>key item. f key (val item))
             (filter (\<lambda>(key, item). shd c \<le> ttl item) (items m)) (stl c, a)
       \<and> fst (Range_m f (m, c, a)) =
           m\<lparr>items := filter (\<lambda>(key, item). shd c \<le> ttl item)
                          (take (Range_reached f (m, c, a)) (items m))
                       @ drop (Range_reached f (m, c, a)) (items m)\<rparr>
       \<and> Range_reached f (m, c, a) \<le> length (items m)
       \<and> (\<forall>i < Range_reached f (m, c, a) - 1.
             fst (case items m ! i of
                    (key, item) \<Rightarrow>
                      Range_visit f (shd c) key item
                        (cmap_Range_loop (Range_visit f (shd c)) (take i (items m)) (m, stl c, a))))
       \<and> (Range_reached f (m, c, a) < length (items m) \<longrightarrow>
             0 < Range_reached f (m, c, a) \<and>
             (case items m ! (Range_reached f (m, c, a) - 1) of
                (key, item) \<Rightarrow>
                  shd c \<le> ttl item \<and>
                  \<not> fst (f key (val item)
                         (snd (cmap_Range_loop (Range_visit f (shd c))
                                 (take (Range_reached f (m, c, a) - 1) (items m)) (m, stl c, a))))))
       \<and> ((\<forall>key v s. fst (f key v s)) \<longrightarrow>
             Range_reached f (m, c, a) = length (items m) \<and>
             fst (Range_m f (m, c, a)) =
               m\<lparr>items := filter (\<lambda>(key, item). shd c \<le> ttl item) (items m)\<rparr>)
       \<and> Len (m, c) =
           (int (length (filter (\<lambda>(key, item). shd c \<le> ttl item) (items m))),
            m\<lparr>items := filter (\<lambda>(key, item). shd c \<le> ttl item) (items m)\<rparr>,
            stl c)"
proof -
  have p: "snd (Range_m f (m, c, a)) =
           cmap_Range_loop (\<lambda>key item. f key (val item))
             (filter (\<lambda>(key, item). shd c \<le> ttl item) (items m)) (stl c, a)"
    by (simp add: Range_m_presented live_items_le)
  have e: "fst (Range_m f (m, c, a)) =
           m\<lparr>items := filter (\<lambda>(key, item). shd c \<le> ttl item)
                          (take (Range_reached f (m, c, a)) (items m))
                       @ drop (Range_reached f (m, c, a)) (items m)\<rparr>"
    using Range_m_items_reached[OF assms, of f c a] by (simp add: live_items_le)
  have le: "Range_reached f (m, c, a) \<le> length (items m)"
    by (rule Range_reached_le)
  have b: "\<forall>i < Range_reached f (m, c, a) - 1.
             fst (case items m ! i of
                    (key, item) \<Rightarrow>
                      Range_visit f (shd c) key item
                        (cmap_Range_loop (Range_visit f (shd c)) (take i (items m)) (m, stl c, a)))"
    using Range_reached_before[of _ f m c a] by blast
  have st: "Range_reached f (m, c, a) < length (items m) \<longrightarrow>
             0 < Range_reached f (m, c, a) \<and>
             (case items m ! (Range_reached f (m, c, a) - 1) of
                (key, item) \<Rightarrow>
                  shd c \<le> ttl item \<and>
                  \<not> fst (f key (val item)
                         (snd (cmap_Range_loop (Range_visit f (shd c))
                                 (take (Range_reached f (m, c, a) - 1) (items m)) (m, stl c, a)))))"
    using Range_reached_stop[of f m c a] by blast
  have al: "(\<forall>key v s. fst (f key v s)) \<longrightarrow>
             Range_reached f (m, c, a) = length (items m) \<and>
             fst (Range_m f (m, c, a)) =
               m\<lparr>items := filter (\<lambda>(key, item). shd c \<le> ttl item) (items m)\<rparr>"
  proof
    assume "\<forall>key v s. fst (f key v s)"
    then have f: "\<And>key v s. fst (f key v s)" by blast
    from Range_m_items_all[of f m c a, OF f assms] Range_reached_all[of f m c a, OF f]
    show "Range_reached f (m, c, a) = length (items m) \<and>
          fst (Range_m f (m, c, a)) =
               m\<lparr>items := filter (\<lambda>(key, item). shd c \<le> ttl item) (items m)\<rparr>"
      by (simp add: live_items_le)
  qed
  have l: "Len (m, c) =
           (int (length (filter (\<lambda>(key, item). shd c \<le> ttl item) (items m))),
            m\<lparr>items := filter (\<lambda>(key, item). shd c \<le> ttl item) (items m)\<rparr>,
            stl c)"
    using Len_count[of m c] Len_items[OF assms, of c] Len_clock[of m c]
    by (cases "Len (m, c)") (simp add: live_items_le)
  from p e le b st al l show ?thesis by blast
qed

theorem C5_traversal_skips_and_evicts_expired_witness:
  "wf_CMap (items \<lparr>items = [(1::nat, \<lparr>val = 7::nat, ttl = 5\<rparr>), (2, \<lparr>val = 8, ttl = 20\<rparr>),
                             (3, \<lparr>val = 9, ttl = 4\<rparr>), (4, \<lparr>val = 6, ttl = 10\<rparr>)]\<rparr>)
   \<and> Range_reached (\<lambda>key value (c', ch). (key \<noteq> 2, c', ch @ [key]))
        (\<lparr>items = [(1::nat, \<lparr>val = 7::nat, ttl = 5\<rparr>), (2, \<lparr>val = 8, ttl = 20\<rparr>),
                   (3, \<lparr>val = 9, ttl = 4\<rparr>), (4, \<lparr>val = 6, ttl = 10\<rparr>)]\<rparr>, sconst 10, []) = 2
   \<and> (2::nat) < length (items \<lparr>items = [(1::nat, \<lparr>val = 7::nat, ttl = 5\<rparr>), (2, \<lparr>val = 8, ttl = 20\<rparr>),
                             (3, \<lparr>val = 9, ttl = 4\<rparr>), (4, \<lparr>val = 6, ttl = 10\<rparr>)]\<rparr>)
   \<and> (0::nat) < 2 - 1
   \<and> Range_m (\<lambda>key value (c', ch). (key \<noteq> 2, c', ch @ [key]))
        (\<lparr>items = [(1::nat, \<lparr>val = 7::nat, ttl = 5\<rparr>), (2, \<lparr>val = 8, ttl = 20\<rparr>),
                   (3, \<lparr>val = 9, ttl = 4\<rparr>), (4, \<lparr>val = 6, ttl = 10\<rparr>)]\<rparr>, sconst 10, []) =
        (\<lparr>items = [(2, \<lparr>val = 8, ttl = 20\<rparr>), (3, \<lparr>val = 9, ttl = 4\<rparr>), (4, \<lparr>val = 6, ttl = 10\<rparr>)]\<rparr>,
         sconst 10, [2])
   \<and> (\<forall>key v s. fst ((\<lambda>key (value::nat) (c' :: clock, ch). (True, c', ch @ [key::nat])) key v s))
   \<and> Range_m (\<lambda>key value (c', ch). (True, c', ch @ [key]))
        (\<lparr>items = [(1::nat, \<lparr>val = 7::nat, ttl = 5\<rparr>), (2, \<lparr>val = 8, ttl = 20\<rparr>),
                   (3, \<lparr>val = 9, ttl = 4\<rparr>), (4, \<lparr>val = 6, ttl = 10\<rparr>)]\<rparr>, sconst 10, []) =
        (\<lparr>items = [(2, \<lparr>val = 8, ttl = 20\<rparr>), (4, \<lparr>val = 6, ttl = 10\<rparr>)]\<rparr>, sconst 10, [2, 4])
   \<and> Len (\<lparr>items = [(1::nat, \<lparr>val = 7::nat, ttl = 5\<rparr>), (2, \<lparr>val = 8, ttl = 20\<rparr>),
                   (3, \<lparr>val = 9, ttl = 4\<rparr>), (4, \<lparr>val = 6, ttl = 10\<rparr>)]\<rparr>, sconst 10) =
        (2, \<lparr>items = [(2, \<lparr>val = 8, ttl = 20\<rparr>), (4, \<lparr>val = 6, ttl = 10\<rparr>)]\<rparr>, sconst 10)"
  using C5_traversal_skips_and_evicts_expired
          [where m = "\<lparr>items = [(1::nat, \<lparr>val = 7::nat, ttl = 5\<rparr>), (2, \<lparr>val = 8, ttl = 20\<rparr>),
                             (3, \<lparr>val = 9, ttl = 4\<rparr>), (4, \<lparr>val = 6, ttl = 10\<rparr>)]\<rparr>"
             and c = "sconst 10" and a = "[]"
             and f = "\<lambda>key value (c', ch). (key \<noteq> 2, c', ch @ [key])"]
        C5_traversal_skips_and_evicts_expired
          [where m = "\<lparr>items = [(1::nat, \<lparr>val = 7::nat, ttl = 5\<rparr>), (2, \<lparr>val = 8, ttl = 20\<rparr>),
                             (3, \<lparr>val = 9, ttl = 4\<rparr>), (4, \<lparr>val = 6, ttl = 10\<rparr>)]\<rparr>"
             and c = "sconst 10" and a = "[]"
             and f = "\<lambda>key value (c', ch). (True, c', ch @ [key])"]
  by (simp add: wf_CMap_def prod_eq_iff Range_reached_def time_Now_def Range_visit_def Before_def)

text \<open>
  Claim C5 as stated fails where it asks for a deadline strictly after the timestamp:
  with a deadline of 9 and a clock that reads 9, \<^verbatim>\<open>Len\<close> counts the entry and the
  traversal presents it, and it stays in the store.
\<close>

theorem C5_counterexample:
  "\<not> shd (sconst 9) < ttl \<lparr>val = 2::nat, ttl = 9\<rparr>
   \<and> Len (\<lparr>items = [(4::nat, \<lparr>val = 2::nat, ttl = 9\<rparr>)]\<rparr>, sconst 9) =
       (1, \<lparr>items = [(4, \<lparr>val = 2, ttl = 9\<rparr>)]\<rparr>, sconst 9)
   \<and> Iter (\<lparr>items = [(4::nat, \<lparr>val = 2::nat, ttl = 9\<rparr>)]\<rparr>, sconst 9) =
       ([(4, 2)], \<lparr>items = [(4, \<lparr>val = 2, ttl = 9\<rparr>)]\<rparr>, sconst 9)"
  by (simp add: Len_def Iter_def Range_m_def Range_visit_def cmap_Range_def time_Now_def Before_def)

text \<open>
  Claim C6. With no write in between and a clock that does not go back, \<^verbatim>\<open>Len\<close>
  never grows: on the same store, and on the store that an earlier \<^verbatim>\<open>Len\<close> left
  behind, the later count is at most the earlier one. No key reappears: the keys that a
  later traversal presents are among those of the earlier one, and a key that
  \<^verbatim>\<open>Has\<close> reported absent is reported absent later too.
\<close>

theorem C6_Len_never_grows:
  assumes "wf_CMap (items m)" and "shd c1 \<le> shd c2"
  shows "fst (Len (m, c2)) \<le> fst (Len (m, c1))
       \<and> fst (Len (fst (snd (Len (m, c1))), c2)) \<le> fst (Len (m, c1))
       \<and> set (fst (Keys (m, c2))) \<subseteq> set (fst (Keys (m, c1)))
       \<and> set (fst (Keys (fst (snd (Len (m, c1))), c2))) \<subseteq> set (fst (Keys (m, c1)))
       \<and> (\<not> fst (Has key (m, c1)) \<longrightarrow>
             \<not> fst (Has key (m, c2)) \<and> \<not> fst (Has key (fst (snd (Has key (m, c1))), c2)))"
proof -
  have a: "fst (Len (m, c2)) \<le> fst (Len (m, c1))"
    using length_live_items_mono[OF assms(2)] by (simp add: Len_count)
  have b: "fst (Len (fst (snd (Len (m, c1))), c2)) \<le> fst (Len (m, c1))"
    using length_live_items_mono[OF assms(2), of "items m"]
    by (simp add: Len_count Len_items[OF assms(1)] live_items_later[OF assms(2)])
  have k: "set (fst (Keys (m, c2))) \<subseteq> set (fst (Keys (m, c1)))"
    using set_live_items_mono[OF assms(2), of "items m"] by (auto simp: Keys_list)
  have k': "set (fst (Keys (fst (snd (Len (m, c1))), c2))) \<subseteq> set (fst (Keys (m, c1)))"
    using set_live_items_mono[OF assms(2), of "items m"]
    by (auto simp: Keys_list Len_items[OF assms(1)] live_items_later[OF assms(2)])
  have h: "\<not> fst (Has key (m, c1)) \<longrightarrow>
             \<not> fst (Has key (m, c2)) \<and> \<not> fst (Has key (fst (snd (Has key (m, c1))), c2))"
    using assms(2) by (auto simp: Has_eq AList.delete_conv' split: option.splits if_splits)
  from a b k k' h show ?thesis by blast
qed

theorem C6_Len_never_grows_witness:
  "wf_CMap (items \<lparr>items = [(1::nat, \<lparr>val = 7::nat, ttl = 5\<rparr>), (2, \<lparr>val = 8, ttl = 20\<rparr>),
                             (3, \<lparr>val = 9, ttl = 10\<rparr>)]\<rparr>)
   \<and> shd (sconst 10) \<le> shd (sconst (15::int))
   \<and> \<not> fst (Has 1 (\<lparr>items = [(1::nat, \<lparr>val = 7::nat, ttl = 5\<rparr>), (2, \<lparr>val = 8, ttl = 20\<rparr>),
                             (3, \<lparr>val = 9, ttl = 10\<rparr>)]\<rparr>, sconst 10))
   \<and> fst (Len (\<lparr>items = [(1::nat, \<lparr>val = 7::nat, ttl = 5\<rparr>), (2, \<lparr>val = 8, ttl = 20\<rparr>),
                             (3, \<lparr>val = 9, ttl = 10\<rparr>)]\<rparr>, sconst 10)) = 2
   \<and> fst (Len (\<lparr>items = [(1::nat, \<lparr>val = 7::nat, ttl = 5\<rparr>), (2, \<lparr>val = 8, ttl = 20\<rparr>),
                             (3, \<lparr>val = 9, ttl = 10\<rparr>)]\<rparr>, sconst 15)) = 1
   \<and> \<not> fst (Has 1 (\<lparr>items = [(1::nat, \<lparr>val = 7::nat, ttl = 5\<rparr>), (2, \<lparr>val = 8, ttl = 20\<rparr>),
                             (3, \<lparr>val = 9, ttl = 10\<rparr>)]\<rparr>, sconst 15))"
  using C6_Len_never_grows
          [where m = "\<lparr>items = [(1::nat, \<lparr>val = 7::nat, ttl = 5\<rparr>), (2, \<lparr>val = 8, ttl = 20\<rparr>),
                             (3, \<lparr>val = 9, ttl = 10\<rparr>)]\<rparr>"
             and ?c1.0 = "sconst 10" and ?c2.0 = "sconst 15" and key = 1]
  by (simp add: wf_CMap_def Has_eq Len_count Before_def)

text \<open>
  Claim C7. \<^verbatim>\<open>Delete\<close> and \<^verbatim>\<open>Remove\<close> give the same result and the same store.
  Neither reads the clock or a deadline; each returns whether the key had an entry and
  leaves the key without one, the other keys untouched.
\<close>

theorem C7_Delete_Remove_equivalent:
  "Delete key m = Remove key m
   \<and> Delete key m = (map_of (items m) key \<noteq> None, m\<lparr>items := AList.delete key (items m)\<rparr>)
   \<and> map_of (items (snd (Delete key m))) = (map_of (items m))(key := None)"
  by (simp add: Delete_eq Remove_eq AList.delete_conv')

text \<open>
  Claim C8. \<^verbatim>\<open>Clear\<close> empties the store without looking at any deadline. Afterwards
  \<^verbatim>\<open>Get\<close> returns the zero value and false and \<^verbatim>\<open>Has\<close> returns false for every
  key, at every time, and \<^verbatim>\<open>Len\<close> returns 0.
\<close>

theorem C8_Clear_removes_everything:
  "items (Clear m) = []
   \<and> Get zeroV key (Clear m, c) = ((zeroV, False), Clear m, c)
   \<and> Has key (Clear m, c) = (False, Clear m, c)
   \<and> fst (Len (Clear m, c)) = 0"
  by (simp add: Clear_def cmap_Clear_def Get_eq Has_eq Len_count)

text \<open>
  Claim C10. \<^verbatim>\<open>Range\<close> takes one reading of the clock before the traversal and
  judges every entry against it: the callback is run on the entries whose deadline is
  not before that reading, and the later readings only reach the callback, which may
  consume them. So an entry that was live at the start is presented even when the clock
  has passed its deadline by the time it is visited. \<^verbatim>\<open>Len\<close>, \<^verbatim>\<open>IsEmpty\<close>,
  \<^verbatim>\<open>Iter\<close>, \<^verbatim>\<open>Keys\<close> and \<^verbatim>\<open>Values\<close> inherit this and consume exactly that
  one reading. \<^verbatim>\<open>GetOrSet\<close> takes one fresh reading in each call; \<^verbatim>\<open>Has\<close> and
  \<^verbatim>\<open>Get\<close> take one fresh reading in each call that finds an entry and none when the
  key has no entry, so two calls in a row judge the entry against two readings.
\<close>

theorem C10_one_clock_reading_per_traversal:
  "snd (Range_m f (m, c, a)) =
       cmap_Range_loop (\<lambda>key item. f key (val item))
         (filter (\<lambda>(key, item). shd c \<le> ttl item) (items m)) (stl c, a)
   \<and> fst (Len (m, c)) = int (length (filter (\<lambda>(key, item). shd c \<le> ttl item) (items m)))
   \<and> snd (snd (Len (m, c))) = stl c
   \<and> fst (IsEmpty (m, c)) = (filter (\<lambda>(key, item). shd c \<le> ttl item) (items m) = [])
   \<and> snd (snd (IsEmpty (m, c))) = stl c
   \<and> fst (Iter (m, c)) =
       map (\<lambda>(key, item). (key, val item)) (filter (\<lambda>(key, item). shd c \<le> ttl item) (items m))
   \<and> snd (snd (Iter (m, c))) = stl c
   \<and> fst (Keys (m, c)) = map fst (filter (\<lambda>(key, item). shd c \<le> ttl item) (items m))
   \<and> snd (snd (Keys (m, c))) = stl c
   \<and> fst (Values (m, c)) =
       map (\<lambda>(key, item). val item) (filter (\<lambda>(key, item). shd c \<le> ttl item) (items m))
   \<and> snd (snd (Values (m, c))) = stl c
   \<and> snd (snd (GetOrSet key v d (m, c))) = stl c
   \<and> (map_of (items m) key = None \<longrightarrow>
         Has key (m, c) = (False, m, c) \<and> Get zeroV key (m, c) = ((zeroV, False), m, c))
   \<and> (map_of (items m) key = Some item \<longrightarrow>
         fst (Has key (m, c)) = (shd c \<le> ttl item)
       \<and> snd (snd (Has key (m, c))) = stl c
       \<and> fst (Get zeroV key (m, c)) = (if shd c \<le> ttl item then (val item, True) else (zeroV, False))
       \<and> snd (snd (Get zeroV key (m, c))) = stl c
       \<and> fst (GetOrSet key v d (m, c)) = (if shd c \<le> ttl item then val item else v)
       \<and> fst (Has key (fst (snd (Has key (m, c))), snd (snd (Has key (m, c))))) =
           (shd c \<le> ttl item \<and> shd (stl c) \<le> ttl item))"
  by (auto simp: Range_m_presented Len_count Len_clock IsEmpty_unfold Iter_list Iter_clock
        Keys_list Keys_clock Values_list Values_clock GetOrSet_eq Has_eq Get_eq
        live_items_le AList.delete_conv' split: option.splits)

theorem C10_one_clock_reading_per_traversal_witness:
  "snd (Range_m (\<lambda>key value (c', log). case time_Now c' of (t, c'') \<Rightarrow> (True, c'', log @ [(key, t)]))
         (\<lparr>items = [(1::nat, \<lparr>val = 7::nat, ttl = 10\<rparr>), (2, \<lparr>val = 8, ttl = 5\<rparr>)]\<rparr>,
          3 ## 7 ## 12 ## sconst 20, [])) = (sconst 20, [(1, 7), (2, 12)])
   \<and> map_of (items \<lparr>items = [(1::nat, \<lparr>val = 7::nat, ttl = 10\<rparr>), (2, \<lparr>val = 8, ttl = 5\<rparr>)]\<rparr>) 2 =
       Some \<lparr>val = 8, ttl = 5\<rparr>
   \<and> fst (Has 2 (\<lparr>items = [(1::nat, \<lparr>val = 7::nat, ttl = 10\<rparr>), (2, \<lparr>val = 8, ttl = 5\<rparr>)]\<rparr>,
          3 ## 7 ## 12 ## sconst 20)) = True
   \<and> fst (Has 2 (\<lparr>items = [(1::nat, \<lparr>val = 7::nat, ttl = 10\<rparr>), (2, \<lparr>val = 8, ttl = 5\<rparr>)]\<rparr>,
          7 ## 12 ## sconst 20)) = False
   \<and> map_of (items \<lparr>items = [(1::nat, \<lparr>val = 7::nat, ttl = 10\<rparr>), (2, \<lparr>val = 8, ttl = 5\<rparr>)]\<rparr>) 3 = None
   \<and> snd (snd (Has 3 (\<lparr>items = [(1::nat, \<lparr>val = 7::nat, ttl = 10\<rparr>), (2, \<lparr>val = 8, ttl = 5\<rparr>)]\<rparr>,
          3 ## 7 ## 12 ## sconst 20))) = 3 ## 7 ## 12 ## sconst 20
   \<and> Len (\<lparr>items = [(1::nat, \<lparr>val = 7::nat, ttl = 10\<rparr>), (2, \<lparr>val = 8, ttl = 5\<rparr>)]\<rparr>,
          3 ## 7 ## 12 ## sconst 20) = (2, \<lparr>items = [(1, \<lparr>val = 7, ttl = 10\<rparr>), (2, \<lparr>val = 8, ttl = 5\<rparr>)]\<rparr>,
          7 ## 12 ## sconst 20)"
  using C10_one_clock_reading_per_traversal
          [where f = "\<lambda>key value (c', log). case time_Now c' of (t, c'') \<Rightarrow> (True, c'', log @ [(key, t)])"
             and m = "\<lparr>items = [(1::nat, \<lparr>val = 7::nat, ttl = 10\<rparr>), (2, \<lparr>val = 8, ttl = 5\<rparr>)]\<rparr>"
             and c = "3 ## 7 ## 12 ## sconst 20" and a = "[]" and key = 2
             and item = "\<lparr>val = 8, ttl = 5\<rparr>" and v = 0 and d = 0 and zeroV = 0]
        C10_one_clock_reading_per_traversal
          [where f = "\<lambda>key value (c', log). case time_Now c' of (t, c'') \<Rightarrow> (True, c'', log @ [(key, t)])"
             and m = "\<lparr>items = [(1::nat, \<lparr>val = 7::nat, ttl = 10\<rparr>), (2, \<lparr>val = 8, ttl = 5\<rparr>)]\<rparr>"
             and c = "7 ## 12 ## sconst 20" and a = "[]" and key = 2
             and item = "\<lparr>val = 8, ttl = 5\<rparr>" and v = 0 and d = 0 and zeroV = 0]
        C10_one_clock_reading_per_traversal
          [where f = "\<lambda>key value (c', log). case time_Now c' of (t, c'') \<Rightarrow> (True, c'', log @ [(key, t)])"
             and m = "\<lparr>items = [(1::nat, \<lparr>val = 7::nat, ttl = 10\<rparr>), (2, \<lparr>val = 8, ttl = 5\<rparr>)]\<rparr>"
             and c = "3 ## 7 ## 12 ## sconst 20" and a = "[]" and key = 3
             and item = "\<lparr>val = 8, ttl = 5\<rparr>" and v = 0 and d = 0 and zeroV = 0]
  by (simp add: time_Now_def Len_def Range_m_def Range_visit_def cmap_Range_def Before_def)

end
